theory Spec2Isabelle
  imports Complex_Main
begin

section \<open>The inventory store (src/inventory.ts)\<close>

text \<open>
  The TypeScript numbers that count items are modelled as \<^typ>\<open>real\<close>: \<open>addItem\<close> takes
  any number, with no check that it is whole or positive, so the model covers fractions
  and negative quantities; rounding, infinities and NaN are outside it. The union type
  \<open>ItemType\<close> is a type of string literals that is erased when the program runs, so
  an item type is a \<^typ>\<open>string\<close> and \<open>ItemType\<close> is the set of the three literals; the
  catalog is the finite map on these keys. A lookup is a lookup of the object's own keys:
  names that a JavaScript object inherits (such as \<open>constructor\<close>) are outside the model.
\<close>

record ItemDef =
  type :: string
  maxStack :: real
  icon :: string
  name :: string
  description :: string

record InventoryItem = ItemDef +
  count :: real

definition ItemType :: "string set" where
  "ItemType = {''gold'', ''potion'', ''key''}"

definition ITEM_DEFINITIONS :: "string \<rightharpoonup> ItemDef" where
  "ITEM_DEFINITIONS =
     [''gold'' \<mapsto> \<lparr>type = ''gold'', maxStack = 99, icon = ''gold-icon'',
                     name = ''Gold Coin'', description = ''Currency of the realm.''\<rparr>,
      ''potion'' \<mapsto> \<lparr>type = ''potion'', maxStack = 5, icon = ''potion-icon'',
                     name = ''Health Potion'', description = ''Restores 25 HP.''\<rparr>,
      ''key'' \<mapsto> \<lparr>type = ''key'', maxStack = 1, icon = ''key-icon'',
                     name = ''Dungeon Key'', description = ''Unlocks a door.''\<rparr>]"

text \<open>The object literal \<open>{...def, count: add}\<close>.\<close>

definition with_count :: "ItemDef \<Rightarrow> real \<Rightarrow> InventoryItem" where
  "with_count d c = \<lparr>type = type d, maxStack = maxStack d, icon = icon d,
                     name = name d, description = description d, count = c\<rparr>"

type_synonym slots = "InventoryItem option list"

text \<open>
  The manager's data. Its DOM container and \<open>render\<close>, which rebuilds the container's
  children from \<open>items\<close> and writes nothing back, are not part of the model. The class
  fixes its capacity at 10; \<open>empty_inventory c\<close> is the state the constructor would build
  for a capacity \<open>c\<close>.
\<close>

record InventoryManager =
  items :: slots
  capacity :: nat
  isVisible :: bool

definition empty_inventory :: "nat \<Rightarrow> InventoryManager" where
  "empty_inventory c = \<lparr>items = replicate c None, capacity = c, isVisible = False\<rparr>"

definition new_InventoryManager :: InventoryManager where
  "new_InventoryManager = empty_inventory 10"

definition toggleVisibility :: "InventoryManager \<Rightarrow> InventoryManager" where
  "toggleVisibility m = m\<lparr>isVisible := \<not> isVisible m\<rparr>"

datatype error = TypeError

text \<open>Put a slot back in front of the slots a loop has still to return.\<close>

fun keep :: "'a \<Rightarrow> 'a list \<times> real \<Rightarrow> 'a list \<times> real" where
  "keep s (ss, r) = (s # ss, r)"

text \<open>
  The first loop of \<open>addItem\<close>, over the slots from index 0: the slots as the loop leaves
  them and the value of \<open>remaining\<close>. The \<open>break\<close> returns the slots behind untouched.
\<close>

fun stack_existing :: "string \<Rightarrow> slots \<Rightarrow> real \<Rightarrow> slots \<times> real" where
  "stack_existing ty [] remaining = ([], remaining)"
| "stack_existing ty (None # rest) remaining = keep None (stack_existing ty rest remaining)"
| "stack_existing ty (Some item # rest) remaining =
     (if type item = ty \<and> count item < maxStack item then
        let space = maxStack item - count item;
            add = min space remaining;
            item' = item\<lparr>count := count item + add\<rparr>;
            remaining' = remaining - add
        in if remaining' = 0 then (Some item' # rest, remaining')
           else keep (Some item') (stack_existing ty rest remaining')
      else keep (Some item) (stack_existing ty rest remaining))"

text \<open>
  The second loop. \<open>def\<close> is what the catalog lookup gave; reading \<open>def.maxStack\<close> of
  an undefined \<open>def\<close> throws, which happens at the first empty slot.
\<close>

fun fill_empty :: "ItemDef option \<Rightarrow> slots \<Rightarrow> real \<Rightarrow> error + slots \<times> real" where
  "fill_empty def [] remaining = Inr ([], remaining)"
| "fill_empty def (Some item # rest) remaining =
     map_sum id (keep (Some item)) (fill_empty def rest remaining)"
| "fill_empty def (None # rest) remaining =
     (case def of
        None \<Rightarrow> Inl TypeError
      | Some d \<Rightarrow>
          let add = min (maxStack d) remaining;
              remaining' = remaining - add
          in if remaining' = 0 then Inr (Some (with_count d add) # rest, remaining')
             else map_sum id (keep (Some (with_count d add))) (fill_empty def rest remaining'))"

text \<open>
  \<open>addItem\<close>: the result is the exception thrown, or the value returned with the state
  the call leaves. A caller that leaves \<open>count\<close> out passes 1.
\<close>

definition addItem :: "string \<Rightarrow> real \<Rightarrow> InventoryManager \<Rightarrow> error + bool \<times> InventoryManager" where
  "addItem ty cnt m =
     (let def = ITEM_DEFINITIONS ty;
          (items1, remaining) = stack_existing ty (items m) cnt
      in if remaining > 0 then
           (case fill_empty def items1 remaining of
              Inl e \<Rightarrow> Inl e
            | Inr (items2, remaining2) \<Rightarrow> Inr (remaining2 = 0, m\<lparr>items := items2\<rparr>))
         else Inr (remaining = 0, m\<lparr>items := items1\<rparr>))"

definition isFull :: "InventoryManager \<Rightarrow> bool" where
  "isFull m = list_all (\<lambda>item. case item of None \<Rightarrow> False
                                | Some it \<Rightarrow> count it \<ge> maxStack it) (items m)"

section \<open>Vocabulary of the properties\<close>

text \<open>The stacks of one item type, in slot order, and the units they hold together.\<close>

fun held :: "string \<Rightarrow> slots \<Rightarrow> InventoryItem list" where
  "held ty [] = []"
| "held ty (None # rest) = held ty rest"
| "held ty (Some item # rest) = (if type item = ty then item # held ty rest else held ty rest)"

definition units :: "string \<Rightarrow> slots \<Rightarrow> real" where
  "units ty ss = sum_list (map count (held ty ss))"

text \<open>A stack of \<open>c\<close> units as \<open>addItem\<close> creates it from the catalog.\<close>

definition stack_of :: "string \<Rightarrow> real \<Rightarrow> InventoryItem option" where
  "stack_of ty c = map_option (\<lambda>d. with_count d c) (ITEM_DEFINITIONS ty)"

text \<open>
  Two invariants of a slot. \<open>slot_fits\<close>: an occupied slot is a copy of the catalog entry
  of its type and holds no more than the entry's \<open>maxStack\<close>. \<open>slot_ok\<close>: moreover its
  count is a whole number of at least 1.
\<close>

definition whole :: "real \<Rightarrow> bool" where
  "whole q = (of_int \<lfloor>q\<rfloor> = q)"

definition slot_fits :: "InventoryItem option \<Rightarrow> bool" where
  "slot_fits s = (case s of
       None \<Rightarrow> True
     | Some it \<Rightarrow> (case ITEM_DEFINITIONS (type it) of
           None \<Rightarrow> False
         | Some d \<Rightarrow> it = with_count d (count it) \<and> count it \<le> maxStack d))"

definition slot_ok :: "InventoryItem option \<Rightarrow> bool" where
  "slot_ok s = (slot_fits s \<and> (case s of
       None \<Rightarrow> True
     | Some it \<Rightarrow> whole (count it) \<and> 1 \<le> count it))"

definition slots_fit :: "InventoryManager \<Rightarrow> bool" where
  "slots_fit m = list_all slot_fits (items m)"

definition slots_ok :: "InventoryManager \<Rightarrow> bool" where
  "slots_ok m = list_all slot_ok (items m)"

text \<open>A slot in which a call for \<open>ty\<close> can place something: empty, or a stack of \<open>ty\<close> below its max.\<close>

fun has_room :: "string \<Rightarrow> InventoryItem option \<Rightarrow> bool" where
  "has_room ty None = True"
| "has_room ty (Some it) = (type it = ty \<and> count it < maxStack it)"

text \<open>A sequence of \<open>addItem\<close> calls: the results in call order and the last state.\<close>

fun add_calls :: "(string \<times> real) list \<Rightarrow> InventoryManager \<Rightarrow> error + bool list \<times> InventoryManager" where
  "add_calls [] m = Inr ([], m)"
| "add_calls ((ty, n) # calls) m =
     (case addItem ty n m of
        Inl e \<Rightarrow> Inl e
      | Inr (ok, m') \<Rightarrow>
          (case add_calls calls m' of
             Inl e \<Rightarrow> Inl e
           | Inr (oks, m'') \<Rightarrow> Inr (ok # oks, m'')))"


subsection \<open>The placement as the specification words it\<close>

text \<open>
  Pass (a): every slot of the type that is below its max stack size takes as much as
  fits, in slot order. Pass (b): what remains goes to the empty slots in slot order, each
  new slot taking up to the max stack size of the type, until nothing remains or the slots end.
\<close>

fun spec_top_up :: "string \<Rightarrow> slots \<Rightarrow> real \<Rightarrow> slots \<times> real" where
  "spec_top_up ty [] r = ([], r)"
| "spec_top_up ty (s # rest) r =
     (case s of
        Some it \<Rightarrow>
          if type it = ty \<and> count it < maxStack it
          then keep (Some (it\<lparr>count := count it + min (maxStack it - count it) r\<rparr>))
                 (spec_top_up ty rest (r - min (maxStack it - count it) r))
          else keep s (spec_top_up ty rest r)
      | None \<Rightarrow> keep s (spec_top_up ty rest r))"

fun spec_allocate :: "ItemDef \<Rightarrow> slots \<Rightarrow> real \<Rightarrow> slots \<times> real" where
  "spec_allocate d [] r = ([], r)"
| "spec_allocate d (s # rest) r =
     (if r = 0 then (s # rest, r)
      else if s = None
        then keep (Some (with_count d (min (maxStack d) r)))
               (spec_allocate d rest (r - min (maxStack d) r))
        else keep s (spec_allocate d rest r))"

definition spec_add :: "ItemDef \<Rightarrow> real \<Rightarrow> InventoryManager \<Rightarrow> bool \<times> InventoryManager" where
  "spec_add d n m =
     (let (topped, r) = spec_top_up (type d) (items m) n;
          (placed, r') = spec_allocate d topped r
      in (r' = 0, m\<lparr>items := placed\<rparr>))"

section \<open>The pickup field (ItemPickupManager)\<close>

text \<open>
  The coordinates, the time and the animation values are TypeScript numbers; they are
  modelled as \<^typ>\<open>real\<close>, so rounding, infinities and NaN are outside the model. A
  sprite is an object of the scene-graph library: the model keeps its fields with the
  marker that owns it and gives it a reference \<open>ref\<close>, and the scene is the list of the
  references of its children (\<open>add\<close> appends a new object, \<open>remove\<close> takes a child out).
\<close>

text \<open>
  Modelled from the spec: the item catalog \<open>ITEM_DB\<close> and its \<open>ItemTemplate\<close> belong to
  the inventory module and are not among the sources. The pickup field reads the fields
  \<open>id\<close> and \<open>icon\<close> of a template; the catalog itself is a parameter \<open>db\<close> of the
  operations, with \<open>db k = None\<close> where \<open>ITEM_DB[k]\<close> is undefined.
\<close>

record ItemTemplate =
  id' :: string
  icon :: string

datatype Texture = PlaceholderTexture | IconTexture string

datatype Blending = NormalBlending | AdditiveBlending

record SpriteMaterial =
  map' :: Texture
  transparent :: bool
  opacity :: real
  depthWrite :: bool
  blending :: Blending

record Vector3 =
  x :: real
  y :: real
  z :: real

record Sprite =
  ref :: nat
  material :: SpriteMaterial
  position :: Vector3
  scale :: Vector3

record ItemPickupSpawn =
  itemId :: string
  quantity :: real
  x :: real
  z :: real
  y :: "real option"

record PickupData =
  sprite :: Sprite
  itemId :: string
  quantity :: int
  x :: real
  z :: real
  baseY :: real
  bobOffset :: real

text \<open>
  The manager, over the type \<open>'inv\<close> of the inventory it holds a reference to. The last
  two fields are not fields of the class: \<open>allocated\<close> counts the sprites created, so that
  each has a reference of its own, and \<open>randoms\<close> counts the calls of \<open>Math.random\<close>,
  whose results are a parameter \<open>rnd\<close> of the operations.
\<close>

record 'inv ItemPickupManager =
  scene :: "nat list"
  inventory :: 'inv
  pickups :: "PickupData list"
  iconTextureCache :: "string \<rightharpoonup> Texture"
  animTime :: real
  allocated :: nat
  randoms :: nat

definition pickupRadius :: real where "pickupRadius = 0.75"
definition bobSpeed :: real where "bobSpeed = 2.2"
definition bobHeight :: real where "bobHeight = 0.08"
definition pulseSpeed :: real where "pulseSpeed = 3.0"
definition pulseAmount :: real where "pulseAmount = 0.10"

definition new_ItemPickupManager :: "nat list \<Rightarrow> 'inv \<Rightarrow> 'inv ItemPickupManager" where
  "new_ItemPickupManager sc inventory0 =
     \<lparr>scene = sc, inventory = inventory0, pickups = [], iconTextureCache = Map.empty,
      animTime = 0, allocated = (if sc = [] then 0 else Suc (Max (set sc))), randoms = 0\<rparr>"

text \<open>
  \<open>getOrLoadIconTexture\<close>: the cached texture, or a placeholder that is cached at once.
  The loader's callbacks run later, outside the calls modelled here.
\<close>

definition getOrLoadIconTexture ::
  "ItemTemplate \<Rightarrow> (string \<rightharpoonup> Texture) \<Rightarrow> Texture \<times> (string \<rightharpoonup> Texture)" where
  "getOrLoadIconTexture tpl cache =
     (case cache (id' tpl) of
        Some existing \<Rightarrow> (existing, cache)
      | None \<Rightarrow> (PlaceholderTexture, cache(id' tpl \<mapsto> PlaceholderTexture)))"

definition spawn ::
  "(string \<rightharpoonup> ItemTemplate) \<Rightarrow> (nat \<Rightarrow> real) \<Rightarrow> ItemPickupSpawn
     \<Rightarrow> 'inv ItemPickupManager \<Rightarrow> 'inv ItemPickupManager" where
  "spawn db rnd s st =
     (case db (ItemPickupSpawn.itemId s) of
        None \<Rightarrow> st
      | Some tpl \<Rightarrow>
          let baseY = (case ItemPickupSpawn.y s of None \<Rightarrow> 0.4 | Some v \<Rightarrow> v);
              (tex, cache) = getOrLoadIconTexture tpl (iconTextureCache st);
              material = \<lparr>map' = tex, transparent = True, opacity = 0.95,
                          depthWrite = False, blending = AdditiveBlending\<rparr>;
              sprite = \<lparr>ref = allocated st, material = material,
                        position = \<lparr>Vector3.x = ItemPickupSpawn.x s, Vector3.y = baseY,
                                    Vector3.z = ItemPickupSpawn.z s\<rparr>,
                        scale = \<lparr>Vector3.x = 0.42, Vector3.y = 0.42, Vector3.z = 0.42\<rparr>\<rparr>;
              pickup = \<lparr>sprite = sprite,
                        itemId = ItemPickupSpawn.itemId s,
                        quantity = max 1 \<lfloor>ItemPickupSpawn.quantity s\<rfloor>,
                        x = ItemPickupSpawn.x s,
                        z = ItemPickupSpawn.z s,
                        baseY = baseY,
                        bobOffset = rnd (randoms st) * pi * 2\<rparr>
          in st\<lparr>pickups := pickups st @ [pickup],
                scene := scene st @ [ref sprite],
                iconTextureCache := cache,
                allocated := Suc (allocated st),
                randoms := Suc (randoms st)\<rparr>)"

definition spawnMany ::
  "(string \<rightharpoonup> ItemTemplate) \<Rightarrow> (nat \<Rightarrow> real) \<Rightarrow> ItemPickupSpawn list
     \<Rightarrow> 'inv ItemPickupManager \<Rightarrow> 'inv ItemPickupManager" where
  "spawnMany db rnd spawns st = foldl (\<lambda>st s. spawn db rnd s st) st spawns"

text \<open>The bob and the pulse that an update gives to the sprite of a marker, at time \<open>t\<close>.\<close>

definition animate :: "real \<Rightarrow> PickupData \<Rightarrow> PickupData" where
  "animate t p =
     (let bobY = sin (t * bobSpeed + bobOffset p) * bobHeight;
          pulse = 1 + sin (t * pulseSpeed + bobOffset p) * pulseAmount;
          s = sprite p
      in p\<lparr>sprite := s\<lparr>position := (position s)\<lparr>Vector3.y := baseY p + bobY\<rparr>,
                          scale := \<lparr>Vector3.x = 0.42 * pulse, Vector3.y = 0.42 * pulse,
                                    Vector3.z = 0.42 * pulse\<rparr>,
                          material := (material s)\<lparr>opacity := 0.85 + (pulse - 1) * 0.75\<rparr>\<rparr>\<rparr>)"

text \<open>The pickup check of the loop body: the planar distance is below the radius.\<close>

definition in_reach :: "Vector3 \<Rightarrow> PickupData \<Rightarrow> bool" where
  "in_reach playerPos p =
     (let dx = Vector3.x playerPos - x p;
          dz = Vector3.z playerPos - z p;
          distance = sqrt (dx * dx + dz * dz)
      in distance < pickupRadius)"

text \<open>
  One pass of the loop body of \<open>update\<close>, at index \<open>i\<close>. \<open>tryAddById\<close> is the accept call
  of the inventory, a parameter: it returns its result and the inventory it leaves.
  Reading a marker beyond the end of the list gives \<open>undefined\<close>, whose \<open>sprite\<close> cannot
  be read.
\<close>

definition update_body ::
  "(string \<Rightarrow> int \<Rightarrow> 'inv \<Rightarrow> bool \<times> 'inv) \<Rightarrow> Vector3 \<Rightarrow> nat
     \<Rightarrow> 'inv ItemPickupManager \<Rightarrow> error + 'inv ItemPickupManager" where
  "update_body tryAddById playerPos i st =
     (if i < length (pickups st) then
        let p = animate (animTime st) (pickups st ! i);
            st1 = st\<lparr>pickups := (pickups st)[i := p]\<rparr>
        in if in_reach playerPos p then
             let (ok, inventory') = tryAddById (itemId p) (quantity p) (inventory st1);
                 st2 = st1\<lparr>inventory := inventory'\<rparr>
             in if ok then
                  Inr (st2\<lparr>scene := remove1 (ref (sprite p)) (scene st2),
                           pickups := take i (pickups st2) @ drop (Suc i) (pickups st2)\<rparr>)
                else Inr st2
           else Inr st1
      else Inl TypeError)"

text \<open>The loop \<open>for (i = length - 1; i >= 0; i--)\<close>, with \<open>n = i + 1\<close> indices still to visit.\<close>

fun update_loop ::
  "(string \<Rightarrow> int \<Rightarrow> 'inv \<Rightarrow> bool \<times> 'inv) \<Rightarrow> Vector3 \<Rightarrow> nat
     \<Rightarrow> 'inv ItemPickupManager \<Rightarrow> error + 'inv ItemPickupManager" where
  "update_loop tryAddById playerPos 0 st = Inr st"
| "update_loop tryAddById playerPos (Suc i) st =
     (case update_body tryAddById playerPos i st of
        Inl e \<Rightarrow> Inl e
      | Inr st' \<Rightarrow> update_loop tryAddById playerPos i st')"

definition update ::
  "(string \<Rightarrow> int \<Rightarrow> 'inv \<Rightarrow> bool \<times> 'inv) \<Rightarrow> real \<Rightarrow> Vector3
     \<Rightarrow> 'inv ItemPickupManager \<Rightarrow> error + 'inv ItemPickupManager" where
  "update tryAddById dt playerPos st =
     (let st0 = st\<lparr>animTime := animTime st + dt\<rparr>
      in update_loop tryAddById playerPos (length (pickups st0)) st0)"

definition clear :: "'inv ItemPickupManager \<Rightarrow> 'inv ItemPickupManager" where
  "clear st = st\<lparr>scene := foldl (\<lambda>sc p. remove1 (ref (sprite p)) sc) (scene st) (pickups st),
                 pickups := []\<rparr>"

definition getActiveCount :: "'inv ItemPickupManager \<Rightarrow> nat" where
  "getActiveCount st = length (pickups st)"


subsection \<open>The update as the specification words it\<close>

text \<open>
  The live markers are gone through one by one. A marker in reach of the player is
  offered to the inventory, with its item id and its quantity, and the answer is noted
  (\<open>Some ok\<close>); a marker out of reach is not offered (\<open>None\<close>). The inventory that an
  offer leaves is the one the next offer meets.
\<close>

fun spec_offers ::
  "(string \<Rightarrow> int \<Rightarrow> 'inv \<Rightarrow> bool \<times> 'inv) \<Rightarrow> Vector3 \<Rightarrow> PickupData list \<Rightarrow> 'inv
     \<Rightarrow> (PickupData \<times> bool option) list \<times> 'inv" where
  "spec_offers accept playerPos [] iv = ([], iv)"
| "spec_offers accept playerPos (p # ps) iv =
     (if in_reach playerPos p then
        (case accept (itemId p) (quantity p) iv of
           (ok, iv') \<Rightarrow>
             (case spec_offers accept playerPos ps iv' of
                (os, iv'') \<Rightarrow> ((p, Some ok) # os, iv'')))
      else
        (case spec_offers accept playerPos ps iv of
           (os, iv'') \<Rightarrow> ((p, None) # os, iv'')))"

text \<open>The markers an update takes (the inventory accepted them) and those it leaves.\<close>

definition taken :: "(PickupData \<times> bool option) list \<Rightarrow> PickupData list" where
  "taken os = map fst (filter (\<lambda>po. snd po = Some True) os)"

definition left :: "(PickupData \<times> bool option) list \<Rightarrow> PickupData list" where
  "left os = map fst (filter (\<lambda>po. snd po \<noteq> Some True) os)"

text \<open>
  An accept call that keeps a record of its invocations beside the inventory: the item
  id and the quantity it was given and the answer it gave, in the order of the calls.
\<close>

definition logged ::
  "(string \<Rightarrow> int \<Rightarrow> 'inv \<Rightarrow> bool \<times> 'inv)
     \<Rightarrow> string \<Rightarrow> int \<Rightarrow> 'inv \<times> (string \<times> int \<times> bool) list
     \<Rightarrow> bool \<times> 'inv \<times> (string \<times> int \<times> bool) list" where
  "logged accept i q s =
     (case accept i q (fst s) of (ok, iv') \<Rightarrow> (ok, iv', snd s @ [(i, q, ok)]))"

text \<open>The invocations that a list of outcomes stands for.\<close>

fun calls_of :: "(PickupData \<times> bool option) list \<Rightarrow> (string \<times> int \<times> bool) list" where
  "calls_of [] = []"
| "calls_of ((p, None) # os) = calls_of os"
| "calls_of ((p, Some ok) # os) = (itemId p, quantity p, ok) # calls_of os"

text \<open>What a spawn entry and a marker say about the pickup: item id, quantity and place.\<close>

definition entry_of :: "ItemPickupSpawn \<Rightarrow> string \<times> int \<times> real \<times> real \<times> real" where
  "entry_of s = (ItemPickupSpawn.itemId s, max 1 \<lfloor>ItemPickupSpawn.quantity s\<rfloor>,
                 ItemPickupSpawn.x s, ItemPickupSpawn.z s,
                 (case ItemPickupSpawn.y s of None \<Rightarrow> 0.4 | Some v \<Rightarrow> v))"

definition marker_of :: "PickupData \<Rightarrow> string \<times> int \<times> real \<times> real \<times> real" where
  "marker_of p = (itemId p, quantity p, x p, z p, baseY p)"

text \<open>The manager with another inventory in the place of its own.\<close>

definition with_inventory :: "'a \<Rightarrow> 'b ItemPickupManager \<Rightarrow> 'a ItemPickupManager" where
  "with_inventory iv st =
     \<lparr>scene = scene st, inventory = iv, pickups = pickups st,
      iconTextureCache = iconTextureCache st, animTime = animTime st,
      allocated = allocated st, randoms = randoms st\<rparr>"


section \<open>Properties of the two loops\<close>

lemma keep_eq: "keep s p = (s # fst p, snd p)" by (cases p) simp

lemma catalog_entry:
  assumes "ITEM_DEFINITIONS ty = Some d"
  shows "type d = ty" and "1 \<le> maxStack d" and "ty \<in> ItemType"
  using assms by (auto simp: ITEM_DEFINITIONS_def ItemType_def split: if_splits)

lemma catalog_dom: "ty \<in> ItemType \<Longrightarrow> \<exists>d. ITEM_DEFINITIONS ty = Some d"
  by (auto simp: ITEM_DEFINITIONS_def ItemType_def)


lemma se_remaining: "0 \<le> r \<Longrightarrow> 0 \<le> snd (stack_existing ty ss r) \<and> snd (stack_existing ty ss r) \<le> r"
proof (induction ss arbitrary: r)
  case (Cons s ss)
  show ?case
  proof (cases s)
    case None
    then show ?thesis using Cons by (simp add: keep_eq)
  next
    case (Some it)
    have "0 \<le> r - min (maxStack it - count it) r" by simp
    from Cons.IH[OF this] Cons.IH[OF Cons.prems] Some Cons.prems show ?thesis
      by (auto simp: keep_eq Let_def)
  qed
qed simp

lemma top_up_zero: "spec_top_up ty ss 0 = (ss, 0)"
  by (induction ss) (auto simp: keep_eq split: option.splits)

lemma se_spec: "stack_existing ty ss r = spec_top_up ty ss r"
proof (induction ss arbitrary: r)
  case (Cons s ss)
  then show ?case by (cases s) (auto simp: keep_eq Let_def top_up_zero)
qed simp

lemma with_count_simps [simp]:
  "type (with_count d c) = type d" "maxStack (with_count d c) = maxStack d"
  "count (with_count d c) = c" "(with_count d c)\<lparr>count := c'\<rparr> = with_count d c'"
  by (simp_all add: with_count_def)

lemma slot_fitsD:
  assumes "slot_fits (Some it)"
  obtains d where "ITEM_DEFINITIONS (type it) = Some d" "it = with_count d (count it)"
    "count it \<le> maxStack d" "maxStack it = maxStack d"
proof -
  from assms obtain d where d: "ITEM_DEFINITIONS (type it) = Some d" "it = with_count d (count it)"
    "count it \<le> maxStack d"
    by (auto simp: slot_fits_def split: option.splits)
  from d(2) have "maxStack it = maxStack d" by (metis with_count_simps(2))
  with d that show thesis by blast
qed

lemma slot_fits_with_count:
  "ITEM_DEFINITIONS (type d) = Some d \<Longrightarrow> c \<le> maxStack d \<Longrightarrow> slot_fits (Some (with_count d c))"
  by (simp add: slot_fits_def)

lemma slot_fits_grow:
  assumes "slot_fits (Some it)" "a \<le> maxStack it - count it"
  shows "slot_fits (Some (it\<lparr>count := count it + a\<rparr>))"
proof -
  from assms(1) obtain d where d: "ITEM_DEFINITIONS (type it) = Some d" "it = with_count d (count it)"
    "count it \<le> maxStack d" "maxStack it = maxStack d"
    by (rule slot_fitsD)
  have t: "type d = type it" using d(2) by (metis with_count_simps(1))
  have "it\<lparr>count := count it + a\<rparr> = with_count d (count it + a)"
    by (subst d(2)) simp
  moreover have "slot_fits (Some (with_count d (count it + a)))"
    using d assms t by (intro slot_fits_with_count) auto
  ultimately show ?thesis by simp
qed


lemma se_total: "units ty (fst (stack_existing ty ss r)) = units ty ss + r - snd (stack_existing ty ss r)"
proof (induction ss arbitrary: r)
  case (Cons s ss)
  then show ?case by (cases s) (auto simp: keep_eq Let_def units_def)
qed (simp add: units_def)


lemma se_empty: "map (\<lambda>s. s = None) (fst (stack_existing ty ss r)) = map (\<lambda>s. s = None) ss"
proof (induction ss arbitrary: r)
  case (Cons s ss)
  then show ?case by (cases s) (auto simp: keep_eq Let_def)
qed simp

lemma se_no_room:
  "\<forall>it. Some it \<in> set ss \<longrightarrow> \<not> has_room ty (Some it) \<Longrightarrow> stack_existing ty ss r = (ss, r)"
proof (induction ss arbitrary: r)
  case (Cons s ss)
  then show ?case by (cases s) (auto simp: keep_eq Let_def)
qed simp

lemma allocate_zero: "spec_allocate d ss 0 = (ss, 0)"
  by (cases ss) simp_all

lemma fe_spec: "fill_empty (Some d) ss r = Inr (spec_allocate d ss r)" if "r \<noteq> 0"
  using that
proof (induction ss arbitrary: r)
  case (Cons s ss)
  then show ?case by (cases s) (auto simp: keep_eq Let_def allocate_zero)
qed simp




lemma sa_total: "units (type d) (fst (spec_allocate d ss r)) = units (type d) ss + r - snd (spec_allocate d ss r)"
proof (induction ss arbitrary: r)
  case (Cons s ss)
  then show ?case by (cases s) (auto simp: keep_eq units_def)
qed (simp add: units_def)


lemma fe_no_empty: "None \<notin> set ss \<Longrightarrow> fill_empty def ss r = Inr (ss, r)"
proof (induction ss)
  case (Cons s ss)
  then show ?case by (cases s) auto
qed simp

lemma fe_unknown: "None \<in> set ss \<Longrightarrow> fill_empty None ss r = Inl TypeError"
proof (induction ss)
  case (Cons s ss)
  then show ?case by (cases s) auto
qed simp

lemma addItem_spec:
  assumes "ITEM_DEFINITIONS ty = Some d" "0 \<le> n"
  shows "addItem ty n m = Inr (spec_add d n m)"
proof -
  have ty: "type d = ty" using assms(1) by (rule catalog_entry)
  obtain s1 r1 where s1: "stack_existing ty (items m) n = (s1, r1)" by force
  then have r1: "0 \<le> r1" using se_remaining[OF assms(2), of ty "items m"] by simp
  obtain s2 r2 where s2: "spec_allocate d s1 r1 = (s2, r2)" by force
  show ?thesis
  proof (cases "r1 = 0")
    case True
    with s1 s2 show ?thesis
      by (simp add: addItem_def spec_add_def assms ty se_spec[symmetric] allocate_zero)
  next
    case False
    with r1 have "0 < r1" by simp
    with s1 s2 False show ?thesis
      by (simp add: addItem_def spec_add_def assms ty se_spec[symmetric] fe_spec)
  qed
qed



lemma spec_add_total:
  assumes "ITEM_DEFINITIONS ty = Some d"
  shows "units ty (items (snd (spec_add d n m))) =
         units ty (items m) + n - snd (spec_allocate d (fst (stack_existing ty (items m) n)) (snd (stack_existing ty (items m) n)))"
    and "fst (spec_add d n m) \<longleftrightarrow> snd (spec_allocate d (fst (stack_existing ty (items m) n)) (snd (stack_existing ty (items m) n))) = 0"
proof -
  have d: "type d = ty" using assms(1) by (rule catalog_entry)
  show "units ty (items (snd (spec_add d n m))) =
         units ty (items m) + n - snd (spec_allocate d (fst (stack_existing ty (items m) n)) (snd (stack_existing ty (items m) n)))"
    using sa_total[of d "fst (stack_existing ty (items m) n)" "snd (stack_existing ty (items m) n)"]
      se_total[of ty "items m" n]
    by (simp add: spec_add_def split_beta d se_spec[symmetric])
  show "fst (spec_add d n m) \<longleftrightarrow> snd (spec_allocate d (fst (stack_existing ty (items m) n)) (snd (stack_existing ty (items m) n))) = 0"
    by (simp add: spec_add_def split_beta d se_spec[symmetric])
qed

lemma se_strict:
  "0 < r \<Longrightarrow> Some it \<in> set ss \<Longrightarrow> has_room ty (Some it) \<Longrightarrow> snd (stack_existing ty ss r) < r"
proof (induction ss arbitrary: r)
  case (Cons s ss)
  show ?case
  proof (cases s)
    case None
    then show ?thesis using Cons by (auto simp: keep_eq)
  next
    case (Some it')
    show ?thesis
    proof (cases "has_room ty (Some it')")
      case True
      have "0 \<le> r - min (maxStack it' - count it') r" by simp
      from se_remaining[OF this, of ty ss] True Some Cons.prems(1) show ?thesis
        by (auto simp: keep_eq Let_def)
    next
      case False
      then have "Some it \<in> set ss" using Cons.prems Some by auto
      from Cons.IH[OF Cons.prems(1) this Cons.prems(3)] False Some show ?thesis
        by (auto simp: keep_eq Let_def)
    qed
  qed
qed simp

lemma sa_upper: "0 \<le> maxStack d \<Longrightarrow> 0 \<le> r \<Longrightarrow> snd (spec_allocate d ss r) \<le> r"
proof (induction ss arbitrary: r)
  case (Cons s ss)
  have "0 \<le> r - min (maxStack d) r" by simp
  from Cons.IH[OF Cons.prems(1) this] Cons.IH[OF Cons.prems] Cons.prems show ?case
    by (auto simp: keep_eq)
qed simp

lemma sa_strict:
  "0 < maxStack d \<Longrightarrow> 0 < r \<Longrightarrow> None \<in> set ss \<Longrightarrow> snd (spec_allocate d ss r) < r"
proof (induction ss arbitrary: r)
  case (Cons s ss)
  have "0 \<le> r - min (maxStack d) r" by simp
  from sa_upper[where ss=ss and d=d, OF _ this] Cons show ?case
    by (cases s) (auto simp: keep_eq)
qed simp

lemma se_None_mem: "None \<in> set (fst (stack_existing ty ss r)) \<longleftrightarrow> None \<in> set ss"
proof -
  have "None \<in> set xs \<longleftrightarrow> True \<in> set (map (\<lambda>s. s = None) xs)" for xs :: slots
    by (induction xs) auto
  then show ?thesis by (simp only: se_empty)
qed

lemma no_room_iff:
  "(\<forall>s \<in> set ss. \<not> has_room ty s) \<longleftrightarrow> None \<notin> set ss \<and> (\<forall>it. Some it \<in> set ss \<longrightarrow> \<not> has_room ty (Some it))"
  by (metis has_room.simps(1) option.exhaust)

lemma addItem_no_room:
  assumes "\<forall>s \<in> set (items m). \<not> has_room ty s"
  shows "addItem ty n m = Inr (n = 0, m)"
proof -
  from assms have a: "None \<notin> set (items m)" "\<forall>it. Some it \<in> set (items m) \<longrightarrow> \<not> has_room ty (Some it)"
    by (simp_all add: no_room_iff)
  show ?thesis
    by (simp add: addItem_def se_no_room[OF a(2)] fe_no_empty[OF a(1)])
qed

lemma spec_add_left:
  assumes "ITEM_DEFINITIONS ty = Some d" "0 < n" "s \<in> set (items m)" "has_room ty s"
  shows "units ty (items (snd (spec_add d n m))) \<noteq> units ty (items m) \<or> fst (spec_add d n m)"
proof -
  have d: "type d = ty" "1 \<le> maxStack d" using assms(1) by (rule catalog_entry)+
  let ?s1 = "fst (stack_existing ty (items m) n)" and ?r1 = "snd (stack_existing ty (items m) n)"
  let ?r2 = "snd (spec_allocate d ?s1 ?r1)"
  have r1: "0 \<le> ?r1" "?r1 \<le> n" using se_remaining[of n ty "items m"] assms(2) by simp_all
  have r2: "?r2 \<le> ?r1" using sa_upper[of d ?r1 ?s1] d r1 by simp
  have "?r2 < n \<or> ?r2 = 0"
  proof (cases s)
    case None
    then have "None \<in> set ?s1" using assms(3) by (simp add: se_None_mem)
    then have "?r1 = 0 \<or> ?r2 < ?r1" using sa_strict[of d ?r1 ?s1] d r1 by force
    with r1 r2 show ?thesis by auto
  next
    case (Some it)
    then have "?r1 < n" using se_strict[of n it "items m" ty] assms by simp
    with r2 show ?thesis by simp
  qed
  then show ?thesis
    using spec_add_total[OF assms(1), of n m] by auto
qed








lemma addItem_known:
  assumes "ITEM_DEFINITIONS ty = Some d"
  shows "\<exists>ok m'. addItem ty n m = Inr (ok, m')"
proof -
  obtain s1 r1 where s1: "stack_existing ty (items m) n = (s1, r1)" by force
  show ?thesis
  proof (cases "0 < r1")
    case True
    then have "fill_empty (Some d) s1 r1 = Inr (spec_allocate d s1 r1)" by (intro fe_spec) simp
    then show ?thesis using s1 True assms by (simp add: addItem_def split_beta)
  next
    case False
    then show ?thesis using s1 by (simp add: addItem_def)
  qed
qed

lemma slots_fit_no_unknown:
  assumes "list_all slot_fits ss" "ITEM_DEFINITIONS ty = None"
  shows "\<forall>it. Some it \<in> set ss \<longrightarrow> \<not> has_room ty (Some it)"
proof (intro allI impI notI)
  fix it assume it: "Some it \<in> set ss" "has_room ty (Some it)"
  then have "slot_fits (Some it)" using assms(1) by (simp add: list_all_iff)
  then obtain d where "ITEM_DEFINITIONS (type it) = Some d" by (rule slot_fitsD)
  with it(2) assms(2) show False by simp
qed

lemma addItem_unknown_result:
  assumes "slots_fit m" "ITEM_DEFINITIONS ty = None"
  shows "addItem ty n m = (if 0 < n \<and> None \<in> set (items m) then Inl TypeError else Inr (n = 0, m))"
proof -
  have "list_all slot_fits (items m)" using assms(1) by (simp add: slots_fit_def)
  from slots_fit_no_unknown[OF this assms(2)]
  have "\<forall>it. Some it \<in> set (items m) \<longrightarrow> \<not> has_room ty (Some it)" .
  then have se: "stack_existing ty (items m) n = (items m, n)" by (rule se_no_room)
  show ?thesis
    by (auto simp: addItem_def se assms(2) fe_no_empty fe_unknown)
qed

lemma held_replicate_None [simp]: "held ty (replicate c None) = []"
  by (induction c) simp_all

lemma empty_inventory_facts:
  "slots_fit (empty_inventory c)" "slots_ok (empty_inventory c)"
  "units ty (items (empty_inventory c)) = 0" "length (items (empty_inventory c)) = c"
  by (simp_all add: empty_inventory_def slots_fit_def slots_ok_def units_def list_all_iff
      slot_fits_def slot_ok_def)


subsection \<open>Whole quantities\<close>

lemma whole_Ints: "whole q \<longleftrightarrow> q \<in> \<int>"
  unfolding whole_def by (metis Ints_of_int of_int_floor)

lemma catalog_whole: "ITEM_DEFINITIONS ty = Some d \<Longrightarrow> maxStack d \<in> \<int>"
  by (auto simp: ITEM_DEFINITIONS_def split: if_splits)

lemma whole_pos: "r \<in> \<int> \<Longrightarrow> 0 < r \<Longrightarrow> (1::real) \<le> r"
  by (auto elim!: Ints_cases)

lemma whole_min: "a \<in> \<int> \<Longrightarrow> b \<in> \<int> \<Longrightarrow> min a b \<in> (\<int> :: real set)"
  by (simp add: min_def)

lemma slot_okD:
  assumes "slot_ok (Some it)"
  shows "slot_fits (Some it)" "count it \<in> \<int>" "1 \<le> count it" "maxStack it \<in> \<int>"
proof -
  from assms show f: "slot_fits (Some it)" and "count it \<in> \<int>" and "1 \<le> count it"
    by (simp_all add: slot_ok_def whole_Ints)
  from f obtain d where "ITEM_DEFINITIONS (type it) = Some d" "maxStack it = maxStack d"
    using slot_fitsD by blast
  then show "maxStack it \<in> \<int>" using catalog_whole by simp
qed

lemma slot_ok_grow:
  assumes "slot_ok (Some it)" "0 \<le> a" "a \<in> \<int>" "a \<le> maxStack it - count it"
  shows "slot_ok (Some (it\<lparr>count := count it + a\<rparr>))"
proof -
  have "slot_fits (Some (it\<lparr>count := count it + a\<rparr>))"
    using slot_okD(1)[OF assms(1)] assms(4) by (rule slot_fits_grow)
  moreover have "count it + a \<in> \<int>" "1 \<le> count it + a"
    using slot_okD(2,3)[OF assms(1)] assms(2,3) by simp_all
  ultimately show ?thesis by (simp add: slot_ok_def whole_Ints)
qed

lemma se_ok:
  "0 \<le> r \<Longrightarrow> r \<in> \<int> \<Longrightarrow> list_all slot_ok ss
     \<Longrightarrow> list_all slot_ok (fst (stack_existing ty ss r)) \<and> snd (stack_existing ty ss r) \<in> \<int>"
proof (induction ss arbitrary: r)
  case (Cons s ss)
  show ?case
  proof (cases s)
    case None
    then show ?thesis using Cons by (simp add: keep_eq)
  next
    case (Some it)
    let ?a = "min (maxStack it - count it) r"
    have ok: "slot_ok (Some it)" using Cons.prems Some by simp
    have a: "?a \<in> \<int>" using slot_okD[OF ok] Cons.prems(2) by (intro whole_min) simp_all
    have r': "0 \<le> r - ?a" "r - ?a \<in> \<int>" using a Cons.prems(2) by simp_all
    have "slot_ok (Some (it\<lparr>count := count it + ?a\<rparr>))" if "count it < maxStack it"
      using that ok a Cons.prems(1) by (intro slot_ok_grow) auto
    with Cons.IH[OF r'] Cons.IH[OF Cons.prems(1,2)] Some Cons.prems r' show ?thesis
      by (auto simp: keep_eq Let_def)
  qed
qed simp

lemma sa_ok:
  assumes "ITEM_DEFINITIONS (type d) = Some d"
  shows "0 \<le> r \<Longrightarrow> r \<in> \<int> \<Longrightarrow> list_all slot_ok ss
     \<Longrightarrow> list_all slot_ok (fst (spec_allocate d ss r))"
proof (induction ss arbitrary: r)
  case (Cons s ss)
  have M: "1 \<le> maxStack d" "maxStack d \<in> \<int>"
    using assms catalog_entry(2) catalog_whole by blast+
  let ?a = "min (maxStack d) r"
  have a: "?a \<in> \<int>" using M Cons.prems(2) by (intro whole_min)
  have r': "0 \<le> r - ?a" "r - ?a \<in> \<int>" using a Cons.prems(2) by simp_all
  have "slot_ok (Some (with_count d ?a))" if "r \<noteq> 0"
  proof -
    from that Cons.prems have "1 \<le> r" by (intro whole_pos) simp_all
    with M have "1 \<le> ?a" by simp
    with a assms show ?thesis by (simp add: slot_ok_def whole_Ints slot_fits_with_count)
  qed
  with Cons.IH[OF r'] Cons.IH[OF Cons.prems(1,2)] Cons.prems show ?case
    by (auto simp: keep_eq)
qed simp

lemma spec_add_ok:
  assumes "ITEM_DEFINITIONS ty = Some d" "0 \<le> n" "n \<in> \<int>" "slots_ok m"
  shows "slots_ok (snd (spec_add d n m))"
proof -
  have d: "type d = ty" using assms(1) by (rule catalog_entry)
  have "list_all slot_ok (items m)" using assms(4) by (simp add: slots_ok_def)
  from se_ok[OF assms(2,3) this, of ty]
  have 1: "list_all slot_ok (fst (stack_existing ty (items m) n))"
    and 2: "snd (stack_existing ty (items m) n) \<in> \<int>" by simp_all
  have 3: "0 \<le> snd (stack_existing ty (items m) n)"
    using se_remaining[OF assms(2)] by simp
  from sa_ok[OF _ 3 2 1, of d] assms(1) d show ?thesis
    by (simp add: spec_add_def split_beta slots_ok_def se_spec[symmetric])
qed

lemma add_calls_ok:
  assumes "\<forall>c \<in> set calls. fst c \<in> ItemType \<and> snd c \<in> \<int> \<and> 0 \<le> snd c" "slots_ok m"
  shows "\<exists>oks m'. add_calls calls m = Inr (oks, m') \<and> slots_ok m'"
  using assms
proof (induction calls arbitrary: m)
  case Nil
  then show ?case by simp
next
  case (Cons c calls)
  obtain ty n where c: "c = (ty, n)" by force
  with Cons.prems have kn: "ty \<in> ItemType" "n \<in> \<int>" "0 \<le> n" by auto
  from kn(1) obtain d where d: "ITEM_DEFINITIONS ty = Some d" using catalog_dom by blast
  obtain ok m1 where res: "spec_add d n m = (ok, m1)" by force
  have step: "addItem ty n m = Inr (ok, m1)" using addItem_spec[OF d kn(3), of m] res by simp
  have "slots_ok m1" using spec_add_ok[OF d kn(3) kn(2) Cons.prems(2)] res by simp
  moreover from Cons.prems have "\<forall>c \<in> set calls. fst c \<in> ItemType \<and> snd c \<in> \<int> \<and> 0 \<le> snd c"
    by simp
  ultimately obtain oks m' where "add_calls calls m1 = Inr (oks, m')" "slots_ok m'"
    using Cons.IH by blast
  then show ?case using c step by auto
qed

lemma slots_ok_bounds:
  assumes "slots_ok m" "Some it \<in> set (items m)"
  shows "count it \<in> \<int> \<and> 1 \<le> count it \<and> count it \<le> maxStack it"
proof -
  from assms have ok: "slot_ok (Some it)" by (simp add: slots_ok_def list_all_iff)
  from slot_okD(1)[OF ok] have "count it \<le> maxStack it" by (rule slot_fitsD) simp
  with slot_okD[OF ok] show ?thesis by simp
qed

subsection \<open>Sequences of calls of any item type\<close>


section \<open>The claims about the inventory store\<close>



text \<open>
  Claim C2, as amended. A failed add is not always without effect: \<open>addItem\<close> places
  what fits and keeps it. A failed add of a known type and a quantity of at least 1 leaves
  the inventory as it was exactly when, before the call, no slot was empty and no stack
  of the type was below its max.
\<close>

theorem failed_add_unchanged_iff:
  assumes "ty \<in> ItemType" "1 \<le> n" "addItem ty n m = Inr (False, m')"
  shows "m' = m \<longleftrightarrow> (\<forall>s \<in> set (items m). \<not> has_room ty s)"
proof
  assume "\<forall>s \<in> set (items m). \<not> has_room ty s"
  from addItem_no_room[OF this, of n] assms(3) show "m' = m" by simp
next
  assume same: "m' = m"
  from assms(1) obtain d where d: "ITEM_DEFINITIONS ty = Some d" using catalog_dom by blast
  have "0 \<le> n" using assms(2) by simp
  from addItem_spec[OF d this, of m] assms(3) have res: "spec_add d n m = (False, m)"
    using same by simp
  show "\<forall>s \<in> set (items m). \<not> has_room ty s"
  proof (intro ballI notI)
    fix s assume "s \<in> set (items m)" "has_room ty s"
    moreover have "0 < n" using assms(2) by simp
    ultimately have "units ty (items (snd (spec_add d n m))) \<noteq> units ty (items m)
        \<or> fst (spec_add d n m)"
      using spec_add_left[OF d] by blast
    with res show False by simp
  qed
qed

text \<open>
  A key offered to ten slots that hold a key each: the call fails and changes nothing.
\<close>

theorem failed_add_unchanged_iff_witness:
  "''key'' \<in> ItemType \<and> (1::real) \<le> 1
   \<and> addItem ''key'' 1 (new_InventoryManager\<lparr>items := replicate 10 (stack_of ''key'' 1)\<rparr>)
       = Inr (False, new_InventoryManager\<lparr>items := replicate 10 (stack_of ''key'' 1)\<rparr>)
   \<and> list_all (\<lambda>s. \<not> has_room ''key'' s)
         (items (new_InventoryManager\<lparr>items := replicate 10 (stack_of ''key'' 1)\<rparr>))"
proof -
  have h: "''key'' \<in> ItemType" "(1::real) \<le> 1" by (simp_all add: ItemType_def)
  have run: "addItem ''key'' 1 (new_InventoryManager\<lparr>items := replicate 10 (stack_of ''key'' 1)\<rparr>)
       = Inr (False, new_InventoryManager\<lparr>items := replicate 10 (stack_of ''key'' 1)\<rparr>)"
    by code_simp
  from failed_add_unchanged_iff[OF h run] h run show ?thesis by (simp add: list_all_iff)
qed

text \<open>
  Claim C2 as stated fails: 51 potions offered to the empty inventory fill all ten slots
  with five potions, and the call returns \<open>False\<close> for the one potion left over.
\<close>

theorem failed_add_counterexample:
  "addItem ''potion'' 51 new_InventoryManager
     = Inr (False, new_InventoryManager\<lparr>items := replicate 10 (stack_of ''potion'' 5)\<rparr>)
   \<and> items (new_InventoryManager\<lparr>items := replicate 10 (stack_of ''potion'' 5)\<rparr>)
       \<noteq> items new_InventoryManager"
  by code_simp

text \<open>
  Claim C3, as amended. \<open>addItem\<close> takes an \<open>ItemType\<close>, and for each of the three
  types the catalog lookup succeeds and the call does not throw, whatever the inventory
  and the quantity. For an identifier outside the catalog, in an inventory whose occupied
  slots are copies of catalog entries (\<open>slots_fit\<close>), the call returns \<open>False\<close> and changes
  nothing when the quantity is negative, or positive with no slot empty.
\<close>

theorem addItem_unknown_type:
  "(ty \<in> ItemType \<longrightarrow> (\<exists>ok m'. addItem ty n m = Inr (ok, m')))
   \<and> (slots_fit m \<and> ITEM_DEFINITIONS ty = None \<and> (n < 0 \<or> 0 < n \<and> None \<notin> set (items m))
        \<longrightarrow> addItem ty n m = Inr (False, m))"
proof (intro conjI impI)
  assume "ty \<in> ItemType"
  then obtain d where "ITEM_DEFINITIONS ty = Some d" using catalog_dom by blast
  then show "\<exists>ok m'. addItem ty n m = Inr (ok, m')" by (rule addItem_known)
next
  assume a: "slots_fit m \<and> ITEM_DEFINITIONS ty = None \<and> (n < 0 \<or> 0 < n \<and> None \<notin> set (items m))"
  then have "slots_fit m" "ITEM_DEFINITIONS ty = None" by simp_all
  from addItem_unknown_result[OF this, of n] a show "addItem ty n m = Inr (False, m)"
    by auto
qed

text \<open>
  Ten slots with a key each are copies of the catalog's key; \<open>sword\<close> is not in the catalog.
\<close>

theorem addItem_unknown_type_witness:
  "slots_fit (new_InventoryManager\<lparr>items := replicate 10 (stack_of ''key'' 1)\<rparr>)
   \<and> ITEM_DEFINITIONS ''sword'' = None
   \<and> None \<notin> set (items (new_InventoryManager\<lparr>items := replicate 10 (stack_of ''key'' 1)\<rparr>))
   \<and> addItem ''sword'' 2 (new_InventoryManager\<lparr>items := replicate 10 (stack_of ''key'' 1)\<rparr>)
       = Inr (False, new_InventoryManager\<lparr>items := replicate 10 (stack_of ''key'' 1)\<rparr>)
   \<and> ''key'' \<in> ItemType
   \<and> (\<exists>ok m'. addItem ''key'' 2 (new_InventoryManager\<lparr>items := replicate 10 (stack_of ''key'' 1)\<rparr>)
       = Inr (ok, m'))"
proof -
  let ?m = "new_InventoryManager\<lparr>items := replicate 10 (stack_of ''key'' 1)\<rparr>"
  have ok: "slots_fit ?m" by code_simp
  have un: "ITEM_DEFINITIONS ''sword'' = None" by code_simp
  have ne: "None \<notin> set (items ?m)" by code_simp
  have k: "''key'' \<in> ItemType" by (simp add: ItemType_def)
  from addItem_unknown_type[of "''sword''" 2 ?m] ok un ne
  have 1: "addItem ''sword'' 2 ?m = Inr (False, ?m)" by simp
  from addItem_unknown_type[of "''key''" 2 ?m] k
  have 2: "\<exists>ok m'. addItem ''key'' 2 ?m = Inr (ok, m')" by simp
  from ok un ne 1 k 2 show ?thesis by simp
qed

text \<open>
  Claim C3 as stated fails: with an empty slot to fill, the second loop reads
  \<open>def.maxStack\<close> of the undefined catalog entry, which throws a \<open>TypeError\<close>.
\<close>

theorem addItem_unknown_counterexample:
  "ITEM_DEFINITIONS ''sword'' = None \<and> addItem ''sword'' 1 new_InventoryManager = Inl TypeError"
  by code_simp




text \<open>
  Claim C5, as amended. After any sequence of \<open>addItem\<close> calls with known types and
  whole quantities of at least 1 on an empty inventory (of any capacity), every occupied
  slot is a copy of its catalog entry and holds a whole number of units, at least 1 and
  at most its \<open>maxStack\<close> (\<open>slots_ok\<close>); an empty slot is \<open>None\<close> and has no count. Every
  such call keeps the invariant.
\<close>

theorem slot_counts_within_bounds:
  assumes "\<forall>c \<in> set calls. fst c \<in> ItemType \<and> whole (snd c) \<and> 1 \<le> snd c"
  shows "(\<exists>oks m. add_calls calls (empty_inventory c) = Inr (oks, m) \<and> slots_ok m
            \<and> (\<forall>it. Some it \<in> set (items m) \<longrightarrow> 1 \<le> count it \<and> count it \<le> maxStack it))
       \<and> (\<forall>m ty n. slots_ok m \<and> ty \<in> ItemType \<and> whole n \<and> 1 \<le> n \<longrightarrow>
             (\<exists>ok m'. addItem ty n m = Inr (ok, m') \<and> slots_ok m'))"
proof
  from assms have "\<forall>c \<in> set calls. fst c \<in> ItemType \<and> snd c \<in> \<int> \<and> 0 \<le> snd c"
    by (force simp: whole_Ints)
  from add_calls_ok[OF this empty_inventory_facts(2), of c]
  obtain oks m where "add_calls calls (empty_inventory c) = Inr (oks, m)" "slots_ok m"
    by blast
  then show "\<exists>oks m. add_calls calls (empty_inventory c) = Inr (oks, m) \<and> slots_ok m
            \<and> (\<forall>it. Some it \<in> set (items m) \<longrightarrow> 1 \<le> count it \<and> count it \<le> maxStack it)"
    using slots_ok_bounds by blast
next
  show "\<forall>m ty n. slots_ok m \<and> ty \<in> ItemType \<and> whole n \<and> 1 \<le> n \<longrightarrow>
             (\<exists>ok m'. addItem ty n m = Inr (ok, m') \<and> slots_ok m')"
  proof (intro allI impI)
    fix m ty and n :: real
    assume a: "slots_ok m \<and> ty \<in> ItemType \<and> whole n \<and> 1 \<le> n"
    then have "\<forall>c \<in> set [(ty, n)]. fst c \<in> ItemType \<and> snd c \<in> \<int> \<and> 0 \<le> snd c"
      by (simp add: whole_Ints)
    from add_calls_ok[OF this, of m] a
    show "\<exists>ok m'. addItem ty n m = Inr (ok, m') \<and> slots_ok m'"
      by (auto split: sum.splits)
  qed
qed

text \<open>
  120 gold and two keys in three slots: stacks of 99 and 21 gold, and one key.
\<close>

theorem slot_counts_within_bounds_witness:
  "list_all (\<lambda>c. fst c \<in> ItemType \<and> whole (snd c) \<and> 1 \<le> snd c) [(''gold'', 120), (''key'', 2 :: real)]
   \<and> add_calls [(''gold'', 120), (''key'', 2)] (empty_inventory 3)
       = Inr ([True, False], \<lparr>items = [stack_of ''gold'' 99, stack_of ''gold'' 21, stack_of ''key'' 1],
                                 capacity = 3, isVisible = False\<rparr>)
   \<and> slots_ok \<lparr>items = [stack_of ''gold'' 99, stack_of ''gold'' 21, stack_of ''key'' 1],
                 capacity = 3, isVisible = False\<rparr>
   \<and> list_all (\<lambda>s. s = None \<or> 1 \<le> count (the s) \<and> count (the s) \<le> maxStack (the s))
         [stack_of ''gold'' 99, stack_of ''gold'' 21, stack_of ''key'' 1]"
proof -
  have h: "\<forall>c \<in> set [(''gold'', 120), (''key'', 2 :: real)]. fst c \<in> ItemType \<and> whole (snd c) \<and> 1 \<le> snd c"
    by (simp add: ItemType_def whole_def)
  have run: "add_calls [(''gold'', 120), (''key'', 2)] (empty_inventory 3)
       = Inr ([True, False], \<lparr>items = [stack_of ''gold'' 99, stack_of ''gold'' 21, stack_of ''key'' 1],
                                 capacity = 3, isVisible = False\<rparr>)"
    by code_simp
  from slot_counts_within_bounds[OF h, of 3] run h show ?thesis
    by (auto simp: list_all_iff)
qed

text \<open>
  Claim C5 as stated fails at a quantity of at least 1 that is not whole: \<open>addItem\<close> takes
  any number, and 5.5 potions offered to the empty inventory are all placed, five in
  slot 0 and half a potion, less than 1, in slot 1.
\<close>

theorem fractional_quantity_counterexample:
  "''potion'' \<in> ItemType \<and> (1::real) \<le> 5.5
   \<and> addItem ''potion'' 5.5 new_InventoryManager
       = Inr (True, new_InventoryManager\<lparr>items := stack_of ''potion'' 5 # stack_of ''potion'' 0.5 # replicate 8 None\<rparr>)
   \<and> map_option count (stack_of ''potion'' 0.5) = Some 0.5
   \<and> (0.5::real) < 1
   \<and> \<not> slots_ok (new_InventoryManager\<lparr>items := stack_of ''potion'' 5 # stack_of ''potion'' 0.5 # replicate 8 None\<rparr>)"
proof -
  have "addItem ''potion'' 5.5 new_InventoryManager
       = Inr (True, new_InventoryManager\<lparr>items := stack_of ''potion'' 5 # stack_of ''potion'' 0.5 # replicate 8 None\<rparr>)"
    by code_simp
  moreover have "map_option count (stack_of ''potion'' 0.5) = Some 0.5"
    by (simp add: stack_of_def ITEM_DEFINITIONS_def)
  moreover have "\<not> slots_ok (new_InventoryManager\<lparr>items := stack_of ''potion'' 5 # stack_of ''potion'' 0.5 # replicate 8 None\<rparr>)"
    by code_simp
  ultimately show ?thesis by (simp add: ItemType_def)
qed




text \<open>
  Claim C7. \<open>isFull\<close> is \<open>True\<close> exactly when no slot is empty and every stack's count
  has reached the stack's \<open>maxStack\<close>.
\<close>

theorem isFull_iff:
  "isFull m \<longleftrightarrow> (\<forall>s \<in> set (items m). s \<noteq> None)
                 \<and> (\<forall>it. Some it \<in> set (items m) \<longrightarrow> maxStack it \<le> count it)"
  by (auto simp: isFull_def list_all_iff split: option.splits)

text \<open>
  Ten slots with a key each are full; the new inventory, with its empty slots, is not.
\<close>

theorem isFull_iff_witness:
  "isFull (new_InventoryManager\<lparr>items := replicate 10 (stack_of ''key'' 1)\<rparr>)
   \<and> None \<notin> set (replicate 10 (stack_of ''key'' 1))
   \<and> \<not> isFull new_InventoryManager
   \<and> None \<in> set (items new_InventoryManager)"
proof -
  have 1: "isFull (new_InventoryManager\<lparr>items := replicate 10 (stack_of ''key'' 1)\<rparr>)"
    by code_simp
  have 2: "None \<in> set (items new_InventoryManager)"
    by (simp add: new_InventoryManager_def empty_inventory_def)
  from isFull_iff[of "new_InventoryManager\<lparr>items := replicate 10 (stack_of ''key'' 1)\<rparr>"] 1
    isFull_iff[of new_InventoryManager] 2
  show ?thesis by auto
qed

text \<open>
  Claim C10. \<open>addItem\<close> with the quantity 0 returns \<open>True\<close> and leaves every slot as it
  is, for every item type and every inventory, a full one included.
\<close>

theorem addItem_zero: "addItem ty 0 m = Inr (True, m)"
proof -
  have "stack_existing ty ss 0 = (ss, 0)" for ss
    by (simp add: se_spec top_up_zero)
  then show ?thesis by (simp add: addItem_def)
qed

section \<open>Properties of the pickup field\<close>

lemma animate_fields [simp]:
  "itemId (animate t p) = itemId p" "quantity (animate t p) = quantity p"
  "x (animate t p) = x p" "z (animate t p) = z p" "baseY (animate t p) = baseY p"
  "bobOffset (animate t p) = bobOffset p" "ref (sprite (animate t p)) = ref (sprite p)"
  by (simp_all add: animate_def Let_def)

lemma marker_of_animate [simp]: "marker_of (animate t p) = marker_of p"
  by (simp add: marker_of_def)

lemma in_reach_animate [simp]: "in_reach pos (animate t p) = in_reach pos p"
  by (simp add: in_reach_def)

lemma update_loop_offers:
  assumes "pickups st = rev xs @ B"
  shows "update_loop acc pos (length xs) st =
     (case spec_offers acc pos xs (inventory st) of
        (os, iv') \<Rightarrow>
          Inr (st\<lparr>pickups := map (animate (animTime st)) (rev (left os)) @ B,
                  inventory := iv',
                  scene := foldl (\<lambda>sc p. remove1 (ref (sprite p)) sc) (scene st) (taken os)\<rparr>))"
  using assms
proof (induction xs arbitrary: st B)
  case Nil
  then show ?case by (simp add: left_def taken_def)
next
  case (Cons p xs)
  let ?i = "length xs"
  let ?ap = "animate (animTime st) p"
  have len: "?i < length (pickups st)" using Cons.prems by simp
  have nth: "pickups st ! ?i = p" using Cons.prems by (simp add: nth_append)
  have upd: "(pickups st)[?i := ?ap] = rev xs @ ?ap # B" using Cons.prems
    by (simp add: list_update_append)
  have cut: "take ?i (rev xs @ ?ap # B) @ drop (Suc ?i) (rev xs @ ?ap # B) = rev xs @ B"
    by simp
  show ?case
  proof (cases "in_reach pos p")
    case False
    let ?st1 = "st\<lparr>pickups := rev xs @ ?ap # B\<rparr>"
    have body: "update_body acc pos ?i st = Inr ?st1"
      using len nth upd False by (simp add: update_body_def Let_def)
    have "pickups ?st1 = rev xs @ (?ap # B)" by simp
    from Cons.IH[OF this] body False show ?thesis
      by (simp add: split_beta left_def taken_def)
  next
    case True
    obtain ok iv1 where acc: "acc (itemId p) (quantity p) (inventory st) = (ok, iv1)" by force
    show ?thesis
    proof (cases ok)
      case False
      let ?st1 = "st\<lparr>pickups := rev xs @ ?ap # B, inventory := iv1\<rparr>"
      have body: "update_body acc pos ?i st = Inr ?st1"
        using len nth upd True acc False by (simp add: update_body_def Let_def)
      have "pickups ?st1 = rev xs @ (?ap # B)" by simp
      from Cons.IH[OF this] body True acc False show ?thesis
        by (simp add: split_beta left_def taken_def)
    next
      case ok: True
      let ?st1 = "st\<lparr>pickups := rev xs @ B, inventory := iv1,
                       scene := remove1 (ref (sprite p)) (scene st)\<rparr>"
      have body: "update_body acc pos ?i st = Inr ?st1"
        using len nth upd True acc ok cut by (simp add: update_body_def Let_def)
      have "pickups ?st1 = rev xs @ B" by simp
      from Cons.IH[OF this] body True acc ok show ?thesis
        by (simp add: split_beta left_def taken_def)
    qed
  qed
qed

lemma offers_fst: "map fst (fst (spec_offers acc pos xs iv)) = xs"
  by (induction xs arbitrary: iv) (auto simp: split_beta)

lemma offers_reach:
  "list_all (\<lambda>po. (snd po \<noteq> None) = in_reach pos (fst po)) (fst (spec_offers acc pos xs iv))"
  by (induction xs arbitrary: iv) (auto simp: split_beta)

lemma offers_logged:
  "spec_offers (logged acc) pos xs (iv, lg) =
     (fst (spec_offers acc pos xs iv), snd (spec_offers acc pos xs iv), lg @ calls_of (fst (spec_offers acc pos xs iv)))"
  by (induction xs arbitrary: iv lg) (auto simp: split_beta logged_def)

lemma scene_without:
  "distinct sc \<Longrightarrow> foldl (\<lambda>sc p. remove1 (f p) sc) sc ps = filter (\<lambda>r. r \<notin> f ` set ps) sc"
proof (induction ps arbitrary: sc)
  case Nil
  then show ?case by simp
next
  case (Cons p ps)
  have "remove1 (f p) sc = filter (\<lambda>r. r \<noteq> f p) sc"
    using Cons.prems by (simp add: distinct_remove1_removeAll removeAll_filter_not_eq) metis
  moreover have "distinct (remove1 (f p) sc)" using Cons.prems by simp
  ultimately show ?case using Cons.IH[of "remove1 (f p) sc"]
    by (auto intro: filter_cong)
qed

lemma left_taken_apart:
  assumes "distinct (map f (map fst os))"
  shows "list_all (\<lambda>p. f p \<notin> f ` set (taken os)) (left os)"
proof -
  from assms have inj: "inj_on (\<lambda>po. f (fst po)) (set os)"
    by (simp add: distinct_map comp_def)
  show ?thesis
    unfolding list_all_iff
  proof (intro ballI notI)
    fix p assume "p \<in> set (left os)" "f p \<in> f ` set (taken os)"
    then obtain po qo where po: "po \<in> set os" "snd po \<noteq> Some True" "fst po = p"
      and qo: "qo \<in> set os" "snd qo = Some True" "f (fst qo) = f p"
      by (auto simp: left_def taken_def)
    from inj po(1,3) qo(1,3) have "po = qo" by (auto dest: inj_onD)
    with po(2) qo(2) show False by simp
  qed
qed

lemma update_offers:
  "update acc dt pos st =
     (case spec_offers acc pos (rev (pickups st)) (inventory st) of
        (os, iv') \<Rightarrow>
          Inr (st\<lparr>animTime := animTime st + dt,
                  pickups := map (animate (animTime st + dt)) (rev (left os)),
                  inventory := iv',
                  scene := foldl (\<lambda>sc p. remove1 (ref (sprite p)) sc) (scene st) (taken os)\<rparr>))"
proof -
  let ?st0 = "st\<lparr>animTime := animTime st + dt\<rparr>"
  have "pickups ?st0 = rev (rev (pickups st)) @ []" by simp
  from update_loop_offers[OF this, of acc pos] show ?thesis
    by (simp add: update_def split_beta)
qed

lemma with_inventory_fields [simp]:
  "pickups (with_inventory iv st) = pickups st" "scene (with_inventory iv st) = scene st"
  "inventory (with_inventory iv st) = iv" "animTime (with_inventory iv st) = animTime st"
  by (simp_all add: with_inventory_def)

lemma spawn_unknown: "db (ItemPickupSpawn.itemId s) = None \<Longrightarrow> spawn db rnd s st = st"
  by (simp add: spawn_def)

lemma spawn_known:
  assumes "db (ItemPickupSpawn.itemId s) = Some tpl"
  shows "map marker_of (pickups (spawn db rnd s st)) = map marker_of (pickups st) @ [entry_of s]"
    and "scene (spawn db rnd s st) = scene st @ [allocated st]"
    and "allocated (spawn db rnd s st) = Suc (allocated st)"
  using assms by (simp_all add: spawn_def Let_def split_beta marker_of_def entry_of_def)

lemma spawnMany_Cons: "spawnMany db rnd (s # ss) st = spawnMany db rnd ss (spawn db rnd s st)"
  by (simp add: spawnMany_def)

lemma spawnMany_known_only:
  "spawnMany db rnd ss st
     = spawnMany db rnd (filter (\<lambda>s. db (ItemPickupSpawn.itemId s) \<noteq> None) ss) st"
proof (induction ss arbitrary: st)
  case Nil
  show ?case by simp
next
  case (Cons s ss)
  show ?case
  proof (cases "db (ItemPickupSpawn.itemId s)")
    case None
    then show ?thesis using Cons[of st] by (simp add: spawnMany_Cons spawn_unknown)
  next
    case (Some tpl)
    then show ?thesis using Cons[of "spawn db rnd s st"] by (simp add: spawnMany_Cons)
  qed
qed

lemma spawnMany_markers:
  "map marker_of (pickups (spawnMany db rnd ss st))
     = map marker_of (pickups st) @ map entry_of (filter (\<lambda>s. db (ItemPickupSpawn.itemId s) \<noteq> None) ss)
   \<and> (\<exists>sprites. scene (spawnMany db rnd ss st) = scene st @ sprites
         \<and> length sprites = length (filter (\<lambda>s. db (ItemPickupSpawn.itemId s) \<noteq> None) ss))"
proof (induction ss arbitrary: st)
  case Nil
  show ?case by (simp add: spawnMany_def)
next
  case (Cons s ss)
  show ?case
  proof (cases "db (ItemPickupSpawn.itemId s)")
    case None
    then show ?thesis using Cons[of st] by (simp add: spawnMany_Cons spawn_unknown)
  next
    case (Some tpl)
    from Cons[of "spawn db rnd s st"] obtain sprites where
      m: "map marker_of (pickups (spawnMany db rnd ss (spawn db rnd s st)))
           = map marker_of (pickups (spawn db rnd s st))
             @ map entry_of (filter (\<lambda>s. db (ItemPickupSpawn.itemId s) \<noteq> None) ss)"
      and sc: "scene (spawnMany db rnd ss (spawn db rnd s st)) = scene (spawn db rnd s st) @ sprites"
        "length sprites = length (filter (\<lambda>s. db (ItemPickupSpawn.itemId s) \<noteq> None) ss)"
      by blast
    have "scene (spawnMany db rnd (s # ss) st) = scene st @ (allocated st # sprites)"
      using sc(1) spawn_known(2)[of db s tpl rnd st, OF Some] by (simp add: spawnMany_Cons)
    moreover have "length (allocated st # sprites)
        = length (filter (\<lambda>s. db (ItemPickupSpawn.itemId s) \<noteq> None) (s # ss))"
      using sc(2) Some by simp
    moreover have "map marker_of (pickups (spawnMany db rnd (s # ss) st))
        = map marker_of (pickups st)
          @ map entry_of (filter (\<lambda>s. db (ItemPickupSpawn.itemId s) \<noteq> None) (s # ss))"
      using m spawn_known(1)[of db s tpl rnd st, OF Some] Some by (simp add: spawnMany_Cons)
    ultimately show ?thesis by blast
  qed
qed

section \<open>The claims about the pickup field\<close>

text \<open>
  Claim C8. An update goes through the live markers from the last to the first, each
  once, and never reads beyond the list. Its result is the one the specification
  describes (\<open>spec_offers\<close>): a marker is offered to the inventory exactly when the player is
  in reach of it; the markers taken, those whose offer the inventory accepted, leave the
  field and the scene, and all others stay in the field, with their bob and pulse
  advanced. Run with an accept call that records its invocations, the update makes
  exactly the calls of these offers, each with the item id and the quantity of its marker.
  A marker that stays has not moved, so the next update offers it again while the player
  is in reach. Where the sprites of the markers are distinct objects, the sprite of a
  marker that stays is none of those taken out of the scene.
\<close>

theorem update_offers_markers_in_reach:
  "\<exists>os iv' st'.
      spec_offers tryAddById playerPos (rev (pickups st)) (inventory st) = (os, iv')
    \<and> map fst os = rev (pickups st)
    \<and> list_all (\<lambda>po. (snd po \<noteq> None) = in_reach playerPos (fst po)) os
    \<and> update tryAddById dt playerPos st = Inr st'
    \<and> st' = st\<lparr>animTime := animTime st + dt,
                 pickups := map (animate (animTime st + dt)) (rev (left os)),
                 inventory := iv',
                 scene := foldl (\<lambda>sc p. remove1 (ref (sprite p)) sc) (scene st) (taken os)\<rparr>
    \<and> update (logged tryAddById) dt playerPos (with_inventory (inventory st, []) st)
          = Inr (with_inventory (iv', calls_of os) st')
    \<and> (distinct (scene st) \<longrightarrow>
          scene st' = filter (\<lambda>r. r \<notin> (\<lambda>p. ref (sprite p)) ` set (taken os)) (scene st))
    \<and> (distinct (map (\<lambda>p. ref (sprite p)) (pickups st)) \<longrightarrow>
          list_all (\<lambda>p. ref (sprite p) \<notin> (\<lambda>p. ref (sprite p)) ` set (taken os)) (left os))"
proof -
  obtain os iv' where o: "spec_offers tryAddById playerPos (rev (pickups st)) (inventory st) = (os, iv')"
    by force
  let ?st' = "st\<lparr>animTime := animTime st + dt,
                 pickups := map (animate (animTime st + dt)) (rev (left os)),
                 inventory := iv',
                 scene := foldl (\<lambda>sc p. remove1 (ref (sprite p)) sc) (scene st) (taken os)\<rparr>"
  have 1: "map fst os = rev (pickups st)"
    using offers_fst[of tryAddById playerPos "rev (pickups st)" "inventory st"] o by simp
  have 2: "list_all (\<lambda>po. (snd po \<noteq> None) = in_reach playerPos (fst po)) os"
    using offers_reach[of playerPos tryAddById "rev (pickups st)" "inventory st"] o by simp
  have 3: "update tryAddById dt playerPos st = Inr ?st'"
    using o by (simp add: update_offers)
  have 4: "update (logged tryAddById) dt playerPos (with_inventory (inventory st, []) st)
          = Inr (with_inventory (iv', calls_of os) ?st')"
    using o by (simp add: update_offers offers_logged with_inventory_def)
  have 5: "scene ?st' = filter (\<lambda>r. r \<notin> (\<lambda>p. ref (sprite p)) ` set (taken os)) (scene st)"
    if "distinct (scene st)"
    using scene_without[OF that, of "\<lambda>p. ref (sprite p)" "taken os"] by simp
  have 6: "list_all (\<lambda>p. ref (sprite p) \<notin> (\<lambda>p. ref (sprite p)) ` set (taken os)) (left os)"
    if "distinct (map (\<lambda>p. ref (sprite p)) (pickups st))"
  proof -
    from that have "distinct (map (\<lambda>p. ref (sprite p)) (map fst os))"
      by (simp add: 1 rev_map[symmetric])
    then show ?thesis by (rule left_taken_apart)
  qed
  from o 1 2 3 4 5 6 show ?thesis by blast
qed

text \<open>
  Three keys, the second out of reach, and an inventory that accepts one item: the last
  key is taken, the first is refused and stays with the second.
\<close>

theorem update_offers_markers_in_reach_witness:
  "distinct (scene (spawnMany [''key_blue'' \<mapsto> \<lparr>id' = ''key_blue'', icon = ''key.svg''\<rparr>] (\<lambda>k. 0)
         [\<lparr>ItemPickupSpawn.itemId = ''key_blue'', quantity = 1, x = 0, z = 0, y = None\<rparr>,
          \<lparr>ItemPickupSpawn.itemId = ''key_blue'', quantity = 1, x = 1, z = 0, y = None\<rparr>,
          \<lparr>ItemPickupSpawn.itemId = ''key_blue'', quantity = 1, x = 0, z = 0, y = None\<rparr>]
         (new_ItemPickupManager [] (1::nat))))
   \<and> map_sum id (\<lambda>s. (map marker_of (pickups s), scene s, inventory s))
        (update (\<lambda>i q n. if 0 < n then (True, n - 1) else (False, n)) (1 / 60)
           \<lparr>Vector3.x = 0, Vector3.y = 1, Vector3.z = 0\<rparr>
           (spawnMany [''key_blue'' \<mapsto> \<lparr>id' = ''key_blue'', icon = ''key.svg''\<rparr>] (\<lambda>k. 0)
             [\<lparr>ItemPickupSpawn.itemId = ''key_blue'', quantity = 1, x = 0, z = 0, y = None\<rparr>,
              \<lparr>ItemPickupSpawn.itemId = ''key_blue'', quantity = 1, x = 1, z = 0, y = None\<rparr>,
              \<lparr>ItemPickupSpawn.itemId = ''key_blue'', quantity = 1, x = 0, z = 0, y = None\<rparr>]
             (new_ItemPickupManager [] (1::nat))))
       = Inr ([(''key_blue'', 1, 0, 0, 0.4), (''key_blue'', 1, 1, 0, 0.4)], [0, 1], 0)
   \<and> map_sum id inventory
        (update (logged (\<lambda>i q n. if 0 < n then (True, n - 1) else (False, n))) (1 / 60)
           \<lparr>Vector3.x = 0, Vector3.y = 1, Vector3.z = 0\<rparr>
           (with_inventory (1::nat, [])
             (spawnMany [''key_blue'' \<mapsto> \<lparr>id' = ''key_blue'', icon = ''key.svg''\<rparr>] (\<lambda>k. 0)
               [\<lparr>ItemPickupSpawn.itemId = ''key_blue'', quantity = 1, x = 0, z = 0, y = None\<rparr>,
                \<lparr>ItemPickupSpawn.itemId = ''key_blue'', quantity = 1, x = 1, z = 0, y = None\<rparr>,
                \<lparr>ItemPickupSpawn.itemId = ''key_blue'', quantity = 1, x = 0, z = 0, y = None\<rparr>]
               (new_ItemPickupManager [] (1::nat)))))
       = Inr (0, [(''key_blue'', 1, True), (''key_blue'', 1, False)])"
proof -
  let ?acc = "\<lambda>(i::string) (q::int) (n::nat). if 0 < n then (True, n - 1) else (False, n)"
  let ?pos = "\<lparr>Vector3.x = 0, Vector3.y = 1, Vector3.z = 0\<rparr>"
  let ?S = "spawnMany [''key_blue'' \<mapsto> \<lparr>id' = ''key_blue'', icon = ''key.svg''\<rparr>] (\<lambda>k. 0)
         [\<lparr>ItemPickupSpawn.itemId = ''key_blue'', quantity = 1, x = 0, z = 0, y = None\<rparr>,
          \<lparr>ItemPickupSpawn.itemId = ''key_blue'', quantity = 1, x = 1, z = 0, y = None\<rparr>,
          \<lparr>ItemPickupSpawn.itemId = ''key_blue'', quantity = 1, x = 0, z = 0, y = None\<rparr>]
         (new_ItemPickupManager [] (1::nat))"
  note defs = spawnMany_def spawn_def getOrLoadIconTexture_def new_ItemPickupManager_def
    in_reach_def pickupRadius_def marker_of_def taken_def left_def Let_def
  have d: "distinct (scene ?S)" by (simp add: defs)
  from update_offers_markers_in_reach[of ?acc ?pos ?S "1 / 60"]
  obtain os iv' st' where
    o: "spec_offers ?acc ?pos (rev (pickups ?S)) (inventory ?S) = (os, iv')"
    and u: "update ?acc (1 / 60) ?pos ?S = Inr st'"
    and st': "st' = ?S\<lparr>animTime := animTime ?S + 1 / 60,
                 pickups := map (animate (animTime ?S + 1 / 60)) (rev (left os)),
                 inventory := iv',
                 scene := foldl (\<lambda>sc p. remove1 (ref (sprite p)) sc) (scene ?S) (taken os)\<rparr>"
    and l: "update (logged ?acc) (1 / 60) ?pos (with_inventory (inventory ?S, []) ?S)
          = Inr (with_inventory (iv', calls_of os) st')"
    by blast
  from o have iv': "iv' = 0" and c: "calls_of os = [(''key_blue'', 1, True), (''key_blue'', 1, False)]"
    and lf: "map marker_of (left os) = [(''key_blue'', 1, 1, 0, 0.4), (''key_blue'', 1, 0, 0, 0.4)]"
    and tk: "map (\<lambda>p. ref (sprite p)) (taken os) = [2]"
    by (auto simp: defs)
  have inv: "inventory ?S = 1" by (simp add: defs)
  have "map marker_of (pickups st') = rev (map marker_of (left os))"
    by (simp add: st' rev_map)
  then have p1: "map marker_of (pickups st') = [(''key_blue'', 1, 0, 0, 0.4), (''key_blue'', 1, 1, 0, 0.4)]"
    by (simp add: lf)
  have "scene ?S = [0, 1, 2]" by (simp add: defs)
  then have "scene st' = foldl (\<lambda>sc r. remove1 r sc) [0, 1, 2] (map (\<lambda>p. ref (sprite p)) (taken os))"
    by (simp add: st' foldl_map)
  then have p2: "scene st' = [0, 1]" by (simp add: tk)
  have p3: "inventory st' = 0" by (simp add: st' iv')
  have a: "map_sum id (\<lambda>s. (map marker_of (pickups s), scene s, inventory s)) (update ?acc (1 / 60) ?pos ?S)
       = Inr ([(''key_blue'', 1, 0, 0, 0.4), (''key_blue'', 1, 1, 0, 0.4)], [0, 1], 0)"
    by (simp only: u) (simp add: p1 p2 p3)
  have b: "map_sum id inventory (update (logged ?acc) (1 / 60) ?pos (with_inventory (1::nat, []) ?S))
       = Inr (0, [(''key_blue'', 1, True), (''key_blue'', 1, False)])"
    using l unfolding inv by (simp add: iv' c)
  from d a b show ?thesis by blast
qed

text \<open>
  Claim C9. A spawn entry whose item id the catalog does not hold changes nothing:
  no marker, nothing added to the scene, the same \<open>getActiveCount\<close>; on this path the
  code reads the catalog and returns, and nothing in it can throw. Spawning a list is
  spawning the entries of the list the catalog knows: each of them, and no other entry,
  adds a marker with the entry's item id, quantity and place, and a sprite to the scene.
\<close>

theorem spawn_ignores_unknown_items:
  "(db (ItemPickupSpawn.itemId s) = None \<longrightarrow>
       spawn db rnd s st = st \<and> getActiveCount (spawn db rnd s st) = getActiveCount st)
   \<and> spawnMany db rnd ss st
       = spawnMany db rnd (filter (\<lambda>s. db (ItemPickupSpawn.itemId s) \<noteq> None) ss) st
   \<and> map marker_of (pickups (spawnMany db rnd ss st))
       = map marker_of (pickups st)
         @ map entry_of (filter (\<lambda>s. db (ItemPickupSpawn.itemId s) \<noteq> None) ss)
   \<and> (\<exists>sprites. scene (spawnMany db rnd ss st) = scene st @ sprites
         \<and> length sprites = length (filter (\<lambda>s. db (ItemPickupSpawn.itemId s) \<noteq> None) ss))"
  using spawnMany_known_only[of db rnd ss st] spawnMany_markers[of db rnd ss st]
  by (simp add: spawn_unknown)

text \<open>
  A catalog with the potion only: the axe is ignored and the potion becomes a marker.
\<close>

theorem spawn_ignores_unknown_items_witness:
  "[''potion_health'' \<mapsto> \<lparr>id' = ''potion_health'', icon = ''potion.svg''\<rparr>] ''axe_basic'' = None
   \<and> spawn [''potion_health'' \<mapsto> \<lparr>id' = ''potion_health'', icon = ''potion.svg''\<rparr>] (\<lambda>k. 0)
         \<lparr>ItemPickupSpawn.itemId = ''axe_basic'', quantity = 1, x = 6, z = 4, y = None\<rparr>
         (new_ItemPickupManager [] ())
       = new_ItemPickupManager [] ()
   \<and> map marker_of (pickups (spawnMany
         [''potion_health'' \<mapsto> \<lparr>id' = ''potion_health'', icon = ''potion.svg''\<rparr>] (\<lambda>k. 0)
         [\<lparr>ItemPickupSpawn.itemId = ''potion_health'', quantity = 2, x = 3, z = 2, y = None\<rparr>,
          \<lparr>ItemPickupSpawn.itemId = ''axe_basic'', quantity = 1, x = 6, z = 4, y = None\<rparr>]
         (new_ItemPickupManager [] ())))
       = [(''potion_health'', 2, 3, 2, 0.4)]"
proof -
  let ?db = "[''potion_health'' \<mapsto> \<lparr>id' = ''potion_health'', icon = ''potion.svg''\<rparr>]"
  let ?potion = "\<lparr>ItemPickupSpawn.itemId = ''potion_health'', quantity = 2, x = 3, z = 2, y = None\<rparr>"
  let ?axe = "\<lparr>ItemPickupSpawn.itemId = ''axe_basic'', quantity = 1, x = 6, z = 4, y = None\<rparr>"
  have un: "?db (ItemPickupSpawn.itemId ?axe) = None" by simp
  note t = spawn_ignores_unknown_items[of ?db ?axe "\<lambda>k. 0" "new_ItemPickupManager [] ()" "[?potion, ?axe]"]
  from t[THEN conjunct1] un
  have 1: "spawn ?db (\<lambda>k. 0) ?axe (new_ItemPickupManager [] ()) = new_ItemPickupManager [] ()"
    by blast
  from t[THEN conjunct2, THEN conjunct2, THEN conjunct1]
  have 2: "map marker_of (pickups (spawnMany ?db (\<lambda>k. 0) [?potion, ?axe] (new_ItemPickupManager [] ())))
       = [(''potion_health'', 2, 3, 2, 0.4)]"
    by (simp add: entry_of_def new_ItemPickupManager_def)
  from un have "?db ''axe_basic'' = None" by simp
  with 1 2 show ?thesis by blast
qed

end
